theory Spec2Isabelle
  imports Main
begin

section \<open>Values of the host language\<close>

text \<open>
  The library under verification (\<^verbatim>\<open>src/index.js\<close>) builds \<^emph>\<open>specs\<close>: functions from an
  evaluation context to a value, tagged with two symbol properties. This theory embeds its
  functions \<^verbatim>\<open>makeSpecFn\<close>, \<^verbatim>\<open>ensureSpec\<close>, \<^verbatim>\<open>requireFunction\<close> and the combinators
  \<^verbatim>\<open>constant\<close>, \<^verbatim>\<open>map\<close>, \<^verbatim>\<open>resolve\<close>, \<^verbatim>\<open>call\<close>, \<^verbatim>\<open>cases\<close>, \<^verbatim>\<open>object\<close>, \<^verbatim>\<open>input\<close>,
  \<^verbatim>\<open>bind\<close> and \<^verbatim>\<open>cache\<close> (\<^verbatim>\<open>union\<close> and \<^verbatim>\<open>conditional\<close> are not needed below). Names
  that Isabelle reserves carry a suffix: \<open>constant_spec\<close>, \<open>map_spec\<close>, \<open>cases_spec\<close>,
  \<open>bind_spec\<close>.

  Runtime values are the primitives, arrays, plain objects and promises. A number is
  modelled by its integer value (\<open>Num\<close>) or is \<open>NaN\<close>; fractions and the negative zero
  are not modelled. Arrays, objects and promises carry their identity, a natural number:
  two of them are the same object exactly when they are equal as values of the model, and
  every object the library creates takes a new identity from the store. A plain object
  is the list of its own enumerable string-keyed properties in enumeration order, which are
  distinct. Function values are not runtime values of the model.

  A promise is modelled by the outcome it settles to: \<open>Promise i (Inr v)\<close> is fulfilled (or
  will be) with \<open>v\<close>, \<open>Promise i (Inl e)\<close> is rejected with \<open>e\<close>. The source runs the
  callback it registers with \<^verbatim>\<open>then\<close> in a later microtask; the model runs it where it is
  registered. The two agree as long as a callback neither reads nor changes the state
  that evaluations share, so the model marks the store while a callback runs and answers
  \<open>Unmodelled\<close> when a callback reaches a memo table or a function of the host that uses
  the host's state.

  \<open>Unmodelled\<close> is the answer of the model wherever the behaviour of the source depends
  on something the model does not hold (the time at which a callback runs, a member of a
  built-in prototype other than the ones listed below, the order in which two promises
  are rejected). It is never caught and never becomes the reason of a promise; a
  statement proved here says nothing about the source in such a case.
\<close>

datatype error =
    IllegalSpecError string
  | TypeError string
  | Thrown string
  | Unmodelled

datatype prim = Undefined | Null | Bool bool | Num int | NaN | Str string

datatype jsval =
    Prim prim
  | Arr nat "jsval list"
  | Obj nat "(string \<times> jsval) list"
  | Promise nat "error + jsval"

text \<open>A value that may or may not be a function, as \<^verbatim>\<open>typeof fn === 'function'\<close> sees it.\<close>

datatype 'f jsfn = Function 'f | NonFunction jsval

text \<open>JavaScript truthiness: \<^verbatim>\<open>!v\<close> is \<open>\<not> truthy v\<close>.\<close>

fun truthy :: "jsval \<Rightarrow> bool" where
  "truthy (Prim Undefined) = False"
| "truthy (Prim Null) = False"
| "truthy (Prim (Bool b)) = b"
| "truthy (Prim (Num n)) = (n \<noteq> 0)"
| "truthy (Prim NaN) = False"
| "truthy (Prim (Str s)) = (s \<noteq> [])"
| "truthy (Arr i xs) = True"
| "truthy (Obj i kvs) = True"
| "truthy (Promise i p) = True"

fun typeof :: "jsval \<Rightarrow> string" where
  "typeof (Prim Undefined) = ''undefined''"
| "typeof (Prim Null) = ''object''"
| "typeof (Prim (Bool b)) = ''boolean''"
| "typeof (Prim (Num n)) = ''number''"
| "typeof (Prim NaN) = ''number''"
| "typeof (Prim (Str s)) = ''string''"
| "typeof (Arr i xs) = ''object''"
| "typeof (Obj i kvs) = ''object''"
| "typeof (Promise i p) = ''object''"


subsection \<open>Property keys\<close>

function digits :: "nat \<Rightarrow> string" where
  "digits n = (if n < 10 then [''0123456789'' ! n] else digits (n div 10) @ [''0123456789'' ! (n mod 10)])"
  by pat_completeness auto
termination
  by (relation "measure id") auto

definition show_int :: "int \<Rightarrow> string" where
  "show_int i = (if i < 0 then CHR ''-'' # digits (nat (- i)) else digits (nat i))"

text \<open>
  \<^verbatim>\<open>ToPropertyKey\<close> (and \<^verbatim>\<open>ToString\<close>) of a primitive. An integer is written in decimal as
  long as it is a safe integer (below \<open>2 ^ 53\<close> in magnitude). The conversion of an array,
  an object or a promise runs their \<^verbatim>\<open>toString\<close> methods and is not modelled.
\<close>

fun to_property_key :: "jsval \<Rightarrow> error + string" where
  "to_property_key (Prim Undefined) = Inr ''undefined''"
| "to_property_key (Prim Null) = Inr ''null''"
| "to_property_key (Prim (Bool b)) = Inr (if b then ''true'' else ''false'')"
| "to_property_key (Prim (Num n)) =
     (if \<bar>n\<bar> < 2 ^ 53 then Inr (show_int n) else Inl Unmodelled)"
| "to_property_key (Prim NaN) = Inr ''NaN''"
| "to_property_key (Prim (Str s)) = Inr s"
| "to_property_key (Arr i xs) = Inl Unmodelled"
| "to_property_key (Obj i kvs) = Inl Unmodelled"
| "to_property_key (Promise i p) = Inl Unmodelled"

text \<open>
  The properties that every plain object inherits from \<^verbatim>\<open>Object.prototype\<close>. A property
  read \<^verbatim>\<open>o[k]\<close> and the test \<^verbatim>\<open>k in o\<close> on a plain object find them when \<open>o\<close> has no own
  property \<open>k\<close>.
\<close>

definition object_prototype :: "string list" where
  "object_prototype =
     [''constructor'', ''__defineGetter__'', ''__defineSetter__'', ''hasOwnProperty'',
      ''__lookupGetter__'', ''__lookupSetter__'', ''isPrototypeOf'',
      ''propertyIsEnumerable'', ''toString'', ''valueOf'', ''__proto__'',
      ''toLocaleString'']"

text \<open>\<^verbatim>\<open>obj[name] = v\<close> on a plain object: an existing property keeps its place.\<close>

fun set_prop :: "(string \<times> 'a) list \<Rightarrow> string \<Rightarrow> 'a \<Rightarrow> (string \<times> 'a) list" where
  "set_prop [] k v = [(k, v)]"
| "set_prop ((k', v') # kvs) k v =
     (if k' = k then (k, v) # kvs else (k', v') # set_prop kvs k v)"

subsection \<open>Promises\<close>

text \<open>What awaiting a value yields: a promise gives its outcome, any other value itself.\<close>

fun settled :: "jsval \<Rightarrow> error + jsval" where
  "settled (Promise i r) = r"
| "settled v = Inr v"

fun rejections :: "jsval list \<Rightarrow> error list" where
  "rejections [] = []"
| "rejections (v # vs) =
     (case settled v of Inl e \<Rightarrow> e # rejections vs | Inr x \<Rightarrow> rejections vs)"

fun fulfilments :: "jsval list \<Rightarrow> jsval list" where
  "fulfilments [] = []"
| "fulfilments (v # vs) =
     (case settled v of Inl e \<Rightarrow> fulfilments vs | Inr x \<Rightarrow> x # fulfilments vs)"

text \<open>
  The outcome of \<^verbatim>\<open>Promise.all(vs)\<close>: the values in argument order when nothing is
  rejected, the reason when one element is rejected. With several rejected elements the
  first one to be rejected in time wins, which the model does not hold.
\<close>

definition all_settled :: "jsval list \<Rightarrow> error + jsval list" where
  "all_settled vs =
     (case rejections vs of
        [] \<Rightarrow> Inr (fulfilments vs)
      | [e] \<Rightarrow> Inl e
      | e # e' # es \<Rightarrow> Inl Unmodelled)"

section \<open>The spec runtime\<close>

text \<open>
  The state that evaluations share: the memo tables of the \<^verbatim>\<open>cache\<close> instances (each
  \<^verbatim>\<open>new Map()\<close> has an identity of its own), the state of the host program, which
  functions given to \<^verbatim>\<open>call\<close> may read and change, and the identity the next new object
  takes. \<open>in_callback\<close> is the mark of the model that a \<^verbatim>\<open>then\<close> callback is running.
  An object that comes from outside an evaluation (a constant, an input, the result of a
  host function) carries an identity of its own, which the store does not hand out.
\<close>

record store =
  memo :: "nat \<Rightarrow> (jsval \<rightharpoonup> jsval)"
  host :: jsval
  next_id :: nat
  in_callback :: bool

text \<open>
  An evaluation context maps binding tokens (the symbols minted by the combinators, here
  natural numbers) to values; a token that is not bound reads as \<^verbatim>\<open>undefined\<close>.
\<close>

type_synonym ctx = "nat \<Rightarrow> jsval"

type_synonym 'a eval = "store \<Rightarrow> (error + 'a) \<times> store"

definition empty_ctx :: ctx where
  "empty_ctx = (\<lambda>t. Prim Undefined)"

text \<open>\<^verbatim>\<open>Object.assign({}, ctx, {[token]: v})\<close>\<close>

definition with_binding :: "ctx \<Rightarrow> nat \<Rightarrow> jsval \<Rightarrow> ctx" where
  "with_binding c t v = c(t := v)"

text \<open>A new array, a new plain object and a new promise: each takes the next identity.\<close>

definition new_array :: "jsval list \<Rightarrow> jsval eval" where
  "new_array xs st = (Inr (Arr (next_id st) xs), st\<lparr>next_id := Suc (next_id st)\<rparr>)"

definition new_object :: "(string \<times> jsval) list \<Rightarrow> jsval eval" where
  "new_object kvs st = (Inr (Obj (next_id st) kvs), st\<lparr>next_id := Suc (next_id st)\<rparr>)"

definition new_promise :: "error + jsval \<Rightarrow> jsval eval" where
  "new_promise r st = (Inr (Promise (next_id st) r), st\<lparr>next_id := Suc (next_id st)\<rparr>)"

text \<open>
  A new promise with the outcome \<open>r\<close>. \<open>Unmodelled\<close> never becomes the reason of a
  promise: it is passed on as it is.
\<close>

definition settle :: "error + jsval \<Rightarrow> jsval eval" where
  "settle r st = (if r = Inl Unmodelled then (Inl Unmodelled, st) else new_promise r st)"

text \<open>\<^verbatim>\<open>Promise.resolve(v)\<close>: a promise is returned as it is.\<close>

definition promise_resolve :: "jsval \<Rightarrow> jsval eval" where
  "promise_resolve v st =
     (case v of
        Promise i r \<Rightarrow> (Inr v, st)
      | other \<Rightarrow> new_promise (Inr v) st)"

text \<open>
  \<^verbatim>\<open>Promise.all(vs)\<close> as a value: a new promise, fulfilled with a new array of the awaited
  values or rejected with the reason of the rejected element.
\<close>

definition promise_all :: "jsval list \<Rightarrow> jsval eval" where
  "promise_all vs st =
     (case all_settled vs of
        Inl e \<Rightarrow> settle (Inl e) st
      | Inr xs \<Rightarrow>
          new_promise (Inr (Arr (next_id st) xs)) (st\<lparr>next_id := Suc (next_id st)\<rparr>))"

text \<open>
  A spec is the function together with its \<^verbatim>\<open>SPEC_PROMISE\<close> property; the property
  \<^verbatim>\<open>SPEC_FN\<close>, which every spec carries, is what distinguishes a \<open>spec\<close> from other values.
  Evaluating a spec returns a value or raises, and may change the store.
\<close>

record spec =
  run :: "ctx \<Rightarrow> jsval eval"
  SPEC_PROMISE :: bool

type_synonym bodyfn = "ctx \<Rightarrow> jsval list \<Rightarrow> jsval eval"
type_synonym evalfn = "ctx \<Rightarrow> spec list \<Rightarrow> (jsval list) eval"

text \<open>The first argument of \<^verbatim>\<open>makeSpecFn\<close>: a function, or an object with the properties
  \<^verbatim>\<open>fn\<close>, \<^verbatim>\<open>hasPromises\<close> and (optionally) \<^verbatim>\<open>evalFn\<close>.\<close>

record options =
  evalFn :: "evalfn option"
  hasPromises :: bool
  fn :: bodyfn

datatype body = Plain bodyfn | Options options

text \<open>The default \<^verbatim>\<open>evalFn\<close>, \<^verbatim>\<open>specs.map(spec => spec(ctx))\<close>: left to right, a raise ends it.\<close>

fun eval_specs :: "ctx \<Rightarrow> spec list \<Rightarrow> (jsval list) eval" where
  "eval_specs c [] st = (Inr [], st)"
| "eval_specs c (s # ss) st =
     (case run s c st of
        (Inl e, st') \<Rightarrow> (Inl e, st')
      | (Inr v, st') \<Rightarrow>
          (case eval_specs c ss st' of
             (Inl e, st'') \<Rightarrow> (Inl e, st'')
           | (Inr vs, st'') \<Rightarrow> (Inr (v # vs), st'')))"

text \<open>
  \<^verbatim>\<open>p.then(k)\<close> for a promise with outcome \<open>r\<close>: a new promise. When \<open>p\<close> is rejected the
  callback is not run and the new promise is rejected with the same reason. Otherwise the
  callback runs on the awaited value, with the store marked; what it raises is the reason
  of the new promise, and what it returns is awaited and fulfils it.
\<close>

definition then_outcome :: "error + 'a \<Rightarrow> ('a \<Rightarrow> jsval eval) \<Rightarrow> jsval eval" where
  "then_outcome r k st =
     (case r of
        Inl e \<Rightarrow> settle (Inl e) st
      | Inr a \<Rightarrow>
          (case k a (st\<lparr>in_callback := True\<rparr>) of
             (Inl e, st') \<Rightarrow> settle (Inl e) (st'\<lparr>in_callback := in_callback st\<rparr>)
           | (Inr v, st') \<Rightarrow> settle (settled v) (st'\<lparr>in_callback := in_callback st\<rparr>)))"

text \<open>
  A function that reads or changes the shared state is outside the model when it is
  reached from a callback: the source runs the callback later, in a state the model does
  not hold.
\<close>

definition guarded :: "bodyfn \<Rightarrow> bodyfn" where
  "guarded f c args st = (if in_callback st then (Inl Unmodelled, st) else f c args st)"

definition body_evalFn :: "body \<Rightarrow> evalfn" where
  "body_evalFn b =
     (case b of
        Plain f \<Rightarrow> eval_specs
      | Options opts \<Rightarrow> (case evalFn opts of None \<Rightarrow> eval_specs | Some ev \<Rightarrow> ev))"

definition body_hasPromises :: "body \<Rightarrow> bool" where
  "body_hasPromises b = (case b of Plain f \<Rightarrow> False | Options opts \<Rightarrow> hasPromises opts)"

definition body_fn :: "body \<Rightarrow> bodyfn" where
  "body_fn b = (case b of Plain f \<Rightarrow> f | Options opts \<Rightarrow> fn opts)"

definition makeSpecFn :: "body \<Rightarrow> spec list \<Rightarrow> spec" where
  "makeSpecFn b specs =
     (if body_hasPromises b \<or> list_ex SPEC_PROMISE specs
      then \<lparr> run = (\<lambda>c st.
               case body_evalFn b c specs st of
                 (Inl e, st') \<Rightarrow> (Inl e, st')
               | (Inr vs, st') \<Rightarrow> then_outcome (all_settled vs) (body_fn b c) st'),
             SPEC_PROMISE = True \<rparr>
      else \<lparr> run = (\<lambda>c st.
               case body_evalFn b c specs st of
                 (Inl e, st') \<Rightarrow> (Inl e, st')
               | (Inr vs, st') \<Rightarrow> body_fn b c vs st'),
             SPEC_PROMISE = False \<rparr>)"

text \<open>The first argument a body function is called with (\<^verbatim>\<open>undefined\<close> when there is none).\<close>

definition arg0 :: "jsval list \<Rightarrow> jsval" where
  "arg0 args = (case args of [] \<Rightarrow> Prim Undefined | a # rest \<Rightarrow> a)"

definition requireFunction :: "'f jsfn \<Rightarrow> error + unit" where
  "requireFunction f =
     (case f of
        Function g \<Rightarrow> Inr ()
      | NonFunction v \<Rightarrow> Inl (IllegalSpecError ''argument must be function''))"

text \<open>
  Calling a value: a value that is not a function raises the engine's own \<^verbatim>\<open>TypeError\<close>.
  Its message names the expression that was called and depends on the engine; the model
  keeps the part all such messages share.
\<close>

definition call_function :: "'f jsfn \<Rightarrow> error + 'f" where
  "call_function f =
     (case f of
        Function g \<Rightarrow> Inr g
      | NonFunction v \<Rightarrow> Inl (TypeError ''is not a function''))"

section \<open>Autospec lifting\<close>

definition constant_spec :: "jsval \<Rightarrow> spec" where
  "constant_spec v = makeSpecFn (Plain (\<lambda>c args st. (Inr v, st))) []"

text \<open>
  What a combinator accepts where a spec is expected: a spec, a primitive, an array or a
  plain object of such arguments, or a promise. The arrays and objects are those the
  caller wrote; a spec evaluates to new ones, so they carry no identity here.
\<close>

datatype raw =
    RSpec spec
  | RLit prim
  | RArr "raw list"
  | RObj "(string \<times> raw) list"
  | RPromise "error + jsval"

text \<open>The spec of an array: \<^verbatim>\<open>makeSpecFn((ctx, ...items) => items, ...spec)\<close>.\<close>

definition array_spec :: "spec list \<Rightarrow> spec" where
  "array_spec specs = makeSpecFn (Plain (\<lambda>c items st. new_array items st)) specs"

text \<open>
  The loop \<^verbatim>\<open>for (let i = 0; i < propsLen; ++i) if (attrs[i] !== undefined) obj[names[i]] = attrs[i]\<close>
  on the new object \<open>obj\<close>; an attribute beyond the end of \<open>attrs\<close> reads as \<^verbatim>\<open>undefined\<close>.
  The object has no own property \<^verbatim>\<open>__proto__\<close>, so an assignment to that name reaches the
  setter it inherits: a primitive other than \<^verbatim>\<open>null\<close> is ignored, and anything else
  replaces the prototype of the object, which leaves the plain objects of the model.
\<close>

fun build_object ::
  "string list \<Rightarrow> jsval list \<Rightarrow> (string \<times> jsval) list \<Rightarrow> error + (string \<times> jsval) list" where
  "build_object [] attrs obj = Inr obj"
| "build_object (name # names) [] obj = build_object names [] obj"
| "build_object (name # names) (a # attrs) obj =
     (if a \<noteq> Prim Undefined
      then (if name = ''__proto__''
            then (case a of
                    Prim Null \<Rightarrow> Inl Unmodelled
                  | Prim p \<Rightarrow> build_object names attrs obj
                  | other \<Rightarrow> Inl Unmodelled)
            else build_object names attrs (set_prop obj name a))
      else build_object names attrs obj)"

definition record_fn :: "string list \<Rightarrow> bodyfn" where
  "record_fn names c attrs st =
     (case build_object names attrs [] of
        Inl e \<Rightarrow> (Inl e, st)
      | Inr obj \<Rightarrow> new_object obj st)"

definition record_spec :: "string list \<Rightarrow> spec list \<Rightarrow> spec" where
  "record_spec names specs = makeSpecFn (Plain (record_fn names)) specs"

text \<open>
  \<^verbatim>\<open>const objSpec = Object.assign({}, spec)\<close> followed by \<^verbatim>\<open>for (let prop in objSpec)\<close>.
  \<^verbatim>\<open>Object.assign\<close> assigns every own enumerable property of \<open>spec\<close> to the new object. The
  assignment of an own property \<^verbatim>\<open>__proto__\<close> reaches the inherited setter: the property is
  not copied, and when its value is an object that object becomes the prototype of the
  copy. The loop then lists the own properties of the copy followed by the enumerable
  properties of that prototype which the copy does not have itself: the properties of a
  plain object, the indices of an array, nothing for a function or a promise.
  \<^verbatim>\<open>objSpec[prop]\<close> reads them through the prototype.
\<close>

fun inherited :: "raw \<Rightarrow> (string \<times> raw) list" where
  "inherited (RObj kvs) = kvs"
| "inherited (RArr xs) = zip (map digits [0..<length xs]) xs"
| "inherited r = []"

definition copied :: "(string \<times> raw) list \<Rightarrow> (string \<times> raw) list" where
  "copied kvs = filter (\<lambda>kv. fst kv \<noteq> ''__proto__'') kvs"

definition enumerated :: "(string \<times> raw) list \<Rightarrow> (string \<times> raw) list" where
  "enumerated kvs =
     copied kvs @
     (case map_of kvs ''__proto__'' of
        None \<Rightarrow> []
      | Some p \<Rightarrow> filter (\<lambda>kv. fst kv \<notin> set (map fst (copied kvs))) (inherited p))"

text \<open>
  \<^verbatim>\<open>ensureSpec\<close>. The test \<^verbatim>\<open>typeof spec === 'object'\<close> holds of \<^verbatim>\<open>null\<close> and of a promise
  too; \<^verbatim>\<open>Object.assign({}, spec)\<close> finds no enumerable property in either.
\<close>

function ensureSpec :: "raw \<Rightarrow> spec" where
  "ensureSpec (RSpec s) = s"
| "ensureSpec (RLit p) =
     (case p of Null \<Rightarrow> record_spec [] [] | _ \<Rightarrow> constant_spec (Prim p))"
| "ensureSpec (RArr xs) = array_spec (map ensureSpec xs)"
| "ensureSpec (RObj kvs) =
     record_spec (map fst (enumerated kvs)) (map (\<lambda>kv. ensureSpec (snd kv)) (enumerated kvs))"
| "ensureSpec (RPromise p) = record_spec [] []"
  by pat_completeness auto
termination
proof (relation "measure size")
  show "wf (measure size)" by simp
next
  fix xs :: "raw list" and x
  assume "x \<in> set xs"
  then have "size x \<le> size_list size xs" by (simp add: size_list_estimation')
  then show "(x, RArr xs) \<in> measure size" by simp
next
  fix kvs :: "(string \<times> raw) list" and kv
  assume enum: "kv \<in> set (enumerated kvs)"
  have own: "size (snd x) < size (RObj ys)" if "x \<in> set ys" for x and ys :: "(string \<times> raw) list"
  proof -
    from that have "size_prod (\<lambda>k. 0) size x \<le> size_list (size_prod (\<lambda>k. 0) size) ys"
      by (simp add: size_list_estimation')
    moreover have "size (snd x) \<le> size_prod (\<lambda>k. 0) size x"
      by (cases x) simp
    ultimately show ?thesis by simp
  qed
  have inh: "size (snd x) < size p" if "x \<in> set (inherited p)" for x p
  proof (cases p)
    case (RArr xs)
    with that have "(fst x, snd x) \<in> set (zip (map digits [0..<length xs]) xs)"
      by simp
    then have "snd x \<in> set xs"
      by (rule set_zip_rightD)
    then have "size (snd x) \<le> size_list size xs"
      by (simp add: size_list_estimation')
    with RArr show ?thesis by simp
  next
    case (RObj ys)
    with that own [of x ys] show ?thesis by simp
  qed (use that in simp_all)
  have "size (snd kv) < size (RObj kvs)"
  proof (cases "kv \<in> set kvs")
    case True
    then show ?thesis by (rule own)
  next
    case False
    with enum obtain p where p: "map_of kvs ''__proto__'' = Some p" and kv: "kv \<in> set (inherited p)"
      by (cases "map_of kvs ''__proto__''") (auto simp: enumerated_def copied_def)
    from p have "(''__proto__'', p) \<in> set kvs" by (rule map_of_SomeD)
    from own [OF this] inh [OF kv] show ?thesis by simp
  qed
  then show "(snd kv, RObj kvs) \<in> measure size" by simp
qed


section \<open>Combinators\<close>

text \<open>
  Building a spec mints symbols (and \<^verbatim>\<open>cache\<close> one map): a construction takes the number of
  identities minted so far and returns the new number, or raises.
\<close>

type_synonym 'a build = "nat \<Rightarrow> error + 'a \<times> nat"

text \<open>The reference handed to a binder: \<^verbatim>\<open>makeSpecFn(ctx => ctx[token])\<close>.\<close>

definition ref_spec :: "nat \<Rightarrow> spec" where
  "ref_spec token = makeSpecFn (Plain (\<lambda>c args st. (Inr (c token), st))) []"

subsection \<open>map\<close>

text \<open>\<^verbatim>\<open>array.map(item => itemSpec(Object.assign({}, ctx, {[currentItem]: item})))\<close>\<close>

fun map_items :: "spec \<Rightarrow> nat \<Rightarrow> ctx \<Rightarrow> jsval list \<Rightarrow> (jsval list) eval" where
  "map_items itemSpec currentItem c [] st = (Inr [], st)"
| "map_items itemSpec currentItem c (item # items) st =
     (case run itemSpec (with_binding c currentItem item) st of
        (Inl e, st') \<Rightarrow> (Inl e, st')
      | (Inr v, st') \<Rightarrow>
          (case map_items itemSpec currentItem c items st' of
             (Inl e, st'') \<Rightarrow> (Inl e, st'')
           | (Inr vs, st'') \<Rightarrow> (Inr (v # vs), st'')))"

text \<open>
  The body of the spec \<^verbatim>\<open>map\<close> returns. \<^verbatim>\<open>array.map\<close> returns a new array, \<open>result\<close>;
  \<^verbatim>\<open>Promise.all(result)\<close> is a new promise of another new array.
\<close>

definition map_fn :: "nat \<Rightarrow> spec \<Rightarrow> bodyfn" where
  "map_fn currentItem itemSpec c args st =
     (case arg0 args of
        Arr i items \<Rightarrow>
          (case map_items itemSpec currentItem c items st of
             (Inl e, st') \<Rightarrow> (Inl e, st')
           | (Inr result, st') \<Rightarrow>
               if SPEC_PROMISE itemSpec
               then promise_all result (st'\<lparr>next_id := Suc (next_id st')\<rparr>)
               else new_array result st')
      | array \<Rightarrow>
          (Inl (TypeError (''Argument did not evaluate to an array: '' @ typeof array)), st))"

definition map_spec :: "raw \<Rightarrow> (spec \<Rightarrow> raw build) jsfn \<Rightarrow> spec build" where
  "map_spec arraySpec itemSpecFn n =
     (let arraySpec' = ensureSpec arraySpec in
      case requireFunction itemSpecFn of
        Inl e \<Rightarrow> Inl e
      | Inr u \<Rightarrow>
          (let currentItem = n in
           case call_function itemSpecFn of
             Inl e \<Rightarrow> Inl e
           | Inr f \<Rightarrow>
               (case f (ref_spec currentItem) (Suc n) of
                  Inl e \<Rightarrow> Inl e
                | Inr (r, n') \<Rightarrow>
                    (let itemSpec = ensureSpec r;
                         itemPromises = SPEC_PROMISE itemSpec
                     in Inr (makeSpecFn
                               (Options \<lparr> evalFn = None, hasPromises = itemPromises,
                                          fn = map_fn currentItem itemSpec \<rparr>)
                               [arraySpec'], n')))))"

subsection \<open>resolve and call\<close>

definition resolve :: "raw \<Rightarrow> spec" where
  "resolve promiseSpec =
     makeSpecFn
       (Options \<lparr> evalFn = None, hasPromises = True,
                  fn = (\<lambda>c args st. promise_resolve (arg0 args) st) \<rparr>)
       [ensureSpec promiseSpec]"

text \<open>
  A function of the host program receives the argument values and returns or throws. A
  \<open>Pure\<close> function does nothing else: what it returns depends on its arguments only, and
  it creates no object. A \<open>Stateful\<close> function may read and change the state of the
  host; called from a callback, it is outside the model.
\<close>

datatype hostfn =
    Pure "jsval list \<Rightarrow> error + jsval"
  | Stateful "jsval list \<Rightarrow> jsval \<Rightarrow> (error + jsval) \<times> jsval"

text \<open>
  \<^verbatim>\<open>(ctx, args) => fn(...args)\<close>; \<open>args\<close> is the array the spec of the argument array
  evaluated to.
\<close>

definition call_fn :: "hostfn \<Rightarrow> bodyfn" where
  "call_fn f c args st =
     (case arg0 args of
        Arr i as \<Rightarrow>
          (case f of
             Pure g \<Rightarrow> (g as, st)
           | Stateful g \<Rightarrow>
               if in_callback st then (Inl Unmodelled, st)
               else (case g as (host st) of (r, h) \<Rightarrow> (r, st\<lparr>host := h\<rparr>)))
      | other \<Rightarrow> (Inl Unmodelled, st))"

definition call :: "hostfn jsfn \<Rightarrow> raw list \<Rightarrow> error + spec" where
  "call f argumentSpec =
     (case requireFunction f of
        Inl e \<Rightarrow> Inl e
      | Inr u \<Rightarrow>
          (case call_function f of
             Inl e \<Rightarrow> Inl e
           | Inr g \<Rightarrow> Inr (makeSpecFn (Plain (call_fn g)) [ensureSpec (RArr argumentSpec)])))"

subsection \<open>cases\<close>

text \<open>An own-property read \<^verbatim>\<open>caseSpecs[caseName]\<close> inside the loop over the object's own keys.\<close>

definition own_prop :: "(string \<times> raw) list \<Rightarrow> string \<Rightarrow> raw" where
  "own_prop obj k = (case map_of obj k of None \<Rightarrow> RLit Undefined | Some r \<Rightarrow> r)"

text \<open>
  The loop \<^verbatim>\<open>for (let caseName in caseSpecs)\<close>: it visits the keys the object had when the
  loop began, writes the lifted spec back into the caller's object and collects the
  flag. The object is passed along and returned as the loop leaves it.
\<close>

fun lift_cases ::
  "string list \<Rightarrow> (string \<times> raw) list \<Rightarrow> bool \<Rightarrow> (string \<times> raw) list \<times> bool" where
  "lift_cases [] caseSpecs promises = (caseSpecs, promises)"
| "lift_cases (caseName # names) caseSpecs promises =
     (let caseSpec = ensureSpec (own_prop caseSpecs caseName)
      in lift_cases names (set_prop caseSpecs caseName (RSpec caseSpec))
           (promises \<or> SPEC_PROMISE caseSpec))"

text \<open>Truthiness of an entry of the case object (\<^verbatim>\<open>!caseSpec\<close>); a spec is a function.\<close>

fun truthy_raw :: "raw \<Rightarrow> bool" where
  "truthy_raw (RSpec s) = True"
| "truthy_raw (RLit p) = truthy (Prim p)"
| "truthy_raw (RArr xs) = True"
| "truthy_raw (RObj kvs) = True"
| "truthy_raw (RPromise p) = True"

text \<open>\<^verbatim>\<open>caseSpec(ctx)\<close> for an entry of the case object.\<close>

fun call_case :: "raw \<Rightarrow> ctx \<Rightarrow> jsval eval" where
  "call_case (RSpec s) c st = run s c st"
| "call_case r c st = (Inl (TypeError ''caseSpec is not a function''), st)"

text \<open>
  \<^verbatim>\<open>caseSpec(ctx)\<close> when \<^verbatim>\<open>caseSpecs[caseValue]\<close> found a member of \<^verbatim>\<open>Object.prototype\<close>: the
  member is called as a plain function (\<^verbatim>\<open>this\<close> is \<^verbatim>\<open>undefined\<close>) with the context as its
  argument. \<^verbatim>\<open>__proto__\<close> reads as the prototype object, which is not a function;
  \<^verbatim>\<open>toString\<close> describes its receiver; \<^verbatim>\<open>constructor\<close> returns the context object, which is
  not a value of the model; the other members convert their receiver to an object first,
  which raises.
\<close>

definition call_inherited :: "string \<Rightarrow> jsval eval" where
  "call_inherited key st =
     (if key = ''__proto__'' then (Inl (TypeError ''caseSpec is not a function''), st)
      else if key = ''toString'' then (Inr (Prim (Str ''[object Undefined]'')), st)
      else if key = ''constructor'' then (Inl Unmodelled, st)
      else (Inl (TypeError ''Cannot convert undefined or null to object''), st))"

text \<open>
  The body both branches of \<^verbatim>\<open>cases\<close> share:
  \<^verbatim>\<open>const caseSpec = caseSpecs[caseValue]; if (!caseSpec) return undefined; return caseSpec(ctx)\<close>.
  The property read looks at the object's own properties and then at its prototype.
\<close>

definition select_case :: "(string \<times> raw) list \<Rightarrow> ctx \<Rightarrow> jsval \<Rightarrow> jsval eval" where
  "select_case caseSpecs c caseValue st =
     (case to_property_key caseValue of
        Inl e \<Rightarrow> (Inl e, st)
      | Inr key \<Rightarrow>
          (case map_of caseSpecs key of
             Some caseSpec \<Rightarrow>
               if \<not> truthy_raw caseSpec then (Inr (Prim Undefined), st)
               else call_case caseSpec c st
           | None \<Rightarrow>
               if key \<in> set object_prototype then call_inherited key st
               else (Inr (Prim Undefined), st)))"

text \<open>
  \<^verbatim>\<open>cases\<close> returns the spec; the second component is the caller's case object as the
  construction leaves it. The spec dispatches on that object.
\<close>

definition cases_spec :: "raw \<Rightarrow> (string \<times> raw) list \<Rightarrow> spec \<times> (string \<times> raw) list" where
  "cases_spec spec0 caseSpecs0 =
     (let spec = ensureSpec spec0;
          (caseSpecs, promises) = lift_cases (map fst caseSpecs0) caseSpecs0 (SPEC_PROMISE spec)
      in if \<not> promises
         then (\<lparr> run = (\<lambda>c st.
                   case run spec c st of
                     (Inl e, st') \<Rightarrow> (Inl e, st')
                   | (Inr caseValue, st') \<Rightarrow> select_case caseSpecs c caseValue st'),
                 SPEC_PROMISE = False \<rparr>, caseSpecs)
         else (\<lparr> run = (\<lambda>c st.
                   case run spec c st of
                     (Inl e, st') \<Rightarrow> (Inl e, st')
                   | (Inr v, st') \<Rightarrow> then_outcome (settled v) (select_case caseSpecs c) st'),
                 SPEC_PROMISE = True \<rparr>, caseSpecs))"

subsection \<open>object\<close>

text \<open>
  \<^verbatim>\<open>property in obj\<close>: raises unless \<open>obj\<close> is an object. The members of the prototypes of
  arrays and promises are not modelled.
\<close>

fun has_property :: "jsval \<Rightarrow> jsval \<Rightarrow> error + bool" where
  "has_property property (Obj i kvs) =
     (case to_property_key property of
        Inl e \<Rightarrow> Inl e
      | Inr key \<Rightarrow> Inr (key \<in> set (map fst kvs) \<or> key \<in> set object_prototype))"
| "has_property property (Prim p) = Inl (TypeError ''Cannot use in operator'')"
| "has_property property v = Inl Unmodelled"

text \<open>
  \<^verbatim>\<open>obj[property]\<close>: raises on \<^verbatim>\<open>undefined\<close> and \<^verbatim>\<open>null\<close>. An inherited member of a plain
  object is a function or the prototype object, and the properties of the other kinds of
  values come from their prototypes or their indices; these are not modelled.
\<close>

fun get_property :: "jsval \<Rightarrow> jsval \<Rightarrow> error + jsval" where
  "get_property (Obj i kvs) property =
     (case to_property_key property of
        Inl e \<Rightarrow> Inl e
      | Inr key \<Rightarrow>
          (case map_of kvs key of
             Some v \<Rightarrow> Inr v
           | None \<Rightarrow> if key \<in> set object_prototype then Inl Unmodelled else Inr (Prim Undefined)))"
| "get_property (Prim Undefined) property = Inl (TypeError ''Cannot read properties of undefined'')"
| "get_property (Prim Null) property = Inl (TypeError ''Cannot read properties of null'')"
| "get_property v property = Inl Unmodelled"

text \<open>The body of the spec that the property accessor returns.\<close>

definition property_fn :: "nat \<Rightarrow> bool \<Rightarrow> bodyfn" where
  "property_fn currentObject required c args st =
     (let property = arg0 args;
          obj = c currentObject
      in case (if required then has_property property obj else Inr True) of
           Inl e \<Rightarrow> (Inl e, st)
         | Inr present \<Rightarrow>
             if \<not> present
             then (case to_property_key property of
                     Inl e \<Rightarrow> (Inl e, st)
                   | Inr name \<Rightarrow> (Inl (TypeError (''Required property missing: '' @ name)), st))
             else (get_property (c currentObject) property, st))"

definition accessor :: "nat \<Rightarrow> raw \<Rightarrow> bool \<Rightarrow> spec" where
  "accessor currentObject propertySpec required =
     makeSpecFn (Plain (property_fn currentObject required)) [ensureSpec propertySpec]"

definition object_fn :: "nat \<Rightarrow> spec \<Rightarrow> bodyfn" where
  "object_fn currentObject resultSpec c args st =
     (let obj = arg0 args
      in if \<not> truthy obj then (Inr (Prim Undefined), st)
         else run resultSpec (with_binding c currentObject obj) st)"

definition object ::
  "raw \<Rightarrow> ((raw \<Rightarrow> bool \<Rightarrow> spec) \<Rightarrow> raw build) jsfn \<Rightarrow> spec build" where
  "object objectSpec resultSpecFn n =
     (let objectSpec' = ensureSpec objectSpec;
          currentObject = n
      in case call_function resultSpecFn of
           Inl e \<Rightarrow> Inl e
         | Inr f \<Rightarrow>
             (case f (accessor currentObject) (Suc n) of
                Inl e \<Rightarrow> Inl e
              | Inr (r, n') \<Rightarrow>
                  (let resultSpec = ensureSpec r
                   in Inr (makeSpecFn
                             (Options \<lparr> evalFn = None, hasPromises = SPEC_PROMISE resultSpec,
                                        fn = object_fn currentObject resultSpec \<rparr>)
                             [objectSpec'], n'))))"

subsection \<open>input and bind\<close>

text \<open>\<^verbatim>\<open>input\<close> returns a plain function of the runtime input, not a spec.\<close>

definition input :: "(spec \<Rightarrow> raw build) jsfn \<Rightarrow> (jsval \<Rightarrow> jsval eval) build" where
  "input specFn n =
     (let givenInput = n
      in case call_function specFn of
           Inl e \<Rightarrow> Inl e
         | Inr f \<Rightarrow>
             (case f (ref_spec givenInput) (Suc n) of
                Inl e \<Rightarrow> Inl e
              | Inr (r, n') \<Rightarrow>
                  (let spec = ensureSpec r
                   in Inr (\<lambda>inp. run spec (with_binding empty_ctx givenInput inp), n'))))"

definition bind_fn :: "nat \<Rightarrow> spec \<Rightarrow> bodyfn" where
  "bind_fn currentValue spec c args st = run spec (with_binding c currentValue (arg0 args)) st"

definition bind_spec :: "raw \<Rightarrow> (spec \<Rightarrow> raw build) jsfn \<Rightarrow> spec build" where
  "bind_spec valueSpec specFn n =
     (let valueSpec' = ensureSpec valueSpec;
          currentValue = n
      in case call_function specFn of
           Inl e \<Rightarrow> Inl e
         | Inr f \<Rightarrow>
             (case f (ref_spec currentValue) (Suc n) of
                Inl e \<Rightarrow> Inl e
              | Inr (r, n') \<Rightarrow>
                  (let spec = ensureSpec r
                   in Inr (makeSpecFn
                             (Options \<lparr> evalFn = None, hasPromises = SPEC_PROMISE spec,
                                        fn = bind_fn currentValue spec \<rparr>)
                             [valueSpec'], n'))))"

subsection \<open>cache\<close>

text \<open>
  The keys of a \<^verbatim>\<open>Map\<close> are compared by the engine: primitives by value (\<^verbatim>\<open>NaN\<close> equal
  to itself), every other value by identity. Both are the equality of the values of the
  model.
\<close>

definition map_has :: "store \<Rightarrow> nat \<Rightarrow> jsval \<Rightarrow> bool" where
  "map_has st table k = (memo st table k \<noteq> None)"

definition map_get :: "store \<Rightarrow> nat \<Rightarrow> jsval \<Rightarrow> jsval" where
  "map_get st table k = (case memo st table k of None \<Rightarrow> Prim Undefined | Some v \<Rightarrow> v)"

definition map_set :: "store \<Rightarrow> nat \<Rightarrow> jsval \<Rightarrow> jsval \<Rightarrow> store" where
  "map_set st table k v = st\<lparr>memo := (memo st)(table := (memo st table)(k \<mapsto> v))\<rparr>"

text \<open>The body of the spec \<^verbatim>\<open>cache\<close> returns, \<^verbatim>\<open>fn (ctx, keyValue)\<close>.\<close>

definition cache_fn :: "nat \<Rightarrow> nat \<Rightarrow> spec \<Rightarrow> bodyfn" where
  "cache_fn currentKey table valueSpec c args st =
     (let keyValue = arg0 args
      in case (if \<not> map_has st table keyValue
               then (case run valueSpec (with_binding c currentKey keyValue) st of
                       (Inl e, st') \<Rightarrow> (Inl e, st')
                     | (Inr v, st') \<Rightarrow> (Inr (), map_set st' table keyValue v))
               else (Inr (), st)) of
           (Inl e, st') \<Rightarrow> (Inl e, st')
         | (Inr u, st') \<Rightarrow> (Inr (map_get st' table keyValue), st'))"

text \<open>
  \<^verbatim>\<open>cache\<close> mints the symbol of its key and, after it has called \<open>valueSpecFn\<close>, its map.
  The second component of the result is the identity of the map. The body reads and
  writes the map, so the model guards it.
\<close>

definition cache :: "raw \<Rightarrow> (spec \<Rightarrow> raw build) jsfn \<Rightarrow> (spec \<times> nat) build" where
  "cache keySpec valueSpecFn n =
     (let keySpec' = ensureSpec keySpec;
          currentKey = n
      in case call_function valueSpecFn of
           Inl e \<Rightarrow> Inl e
         | Inr f \<Rightarrow>
             (case f (ref_spec currentKey) (Suc n) of
                Inl e \<Rightarrow> Inl e
              | Inr (r, n') \<Rightarrow>
                  (let valueSpec = ensureSpec r;
                       table = n'
                   in Inr ((makeSpecFn
                              (Options \<lparr> evalFn = None, hasPromises = SPEC_PROMISE valueSpec,
                                         fn = guarded (cache_fn currentKey table valueSpec) \<rparr>)
                              [keySpec'], table), Suc n'))))"

section \<open>Initial state\<close>

text \<open>
  The store before anything was evaluated: every memo table is empty, and no callback is
  running.
\<close>

definition empty_store :: store where
  "empty_store =
     \<lparr>memo = (\<lambda>t. Map.empty), host = Prim Undefined, next_id = 0, in_callback = False\<rparr>"

section \<open>Literals\<close>


text \<open>The value with every object property that holds \<^verbatim>\<open>undefined\<close> left out, at any depth.\<close>

fun omit_absent :: "jsval \<Rightarrow> jsval" where
  "omit_absent (Prim p) = Prim p"
| "omit_absent (Arr i xs) = Arr i (map omit_absent xs)"
| "omit_absent (Obj i kvs) =
     Obj i (filter (\<lambda>(k, v). v \<noteq> Prim Undefined) (map (\<lambda>(k, v). (k, omit_absent v)) kvs))"
| "omit_absent (Promise i p) = Promise i p"


text \<open>
  The structure of a value: the value with the identities of its objects forgotten. Two
  values are structurally equal when they have the same structure.
\<close>

fun shape :: "jsval \<Rightarrow> jsval" where
  "shape (Prim p) = Prim p"
| "shape (Arr i xs) = Arr 0 (map shape xs)"
| "shape (Obj i kvs) = Obj 0 (map (\<lambda>(k, v). (k, shape v)) kvs)"
| "shape (Promise i p) = Promise 0 p"

section \<open>Host functions of the examples\<close>

text \<open>
  Two functions of a host program whose state is a counter, as in the repository's test of
  \<^verbatim>\<open>cache\<close>: \<^verbatim>\<open>() => ++calls\<close>, and a function that counts its calls and throws.
\<close>

definition count_calls :: hostfn where
  "count_calls =
     Stateful (\<lambda>args h.
       case h of
         Prim (Num i) \<Rightarrow> (Inr (Prim (Num (i + 1))), Prim (Num (i + 1)))
       | other \<Rightarrow> (Inr (Prim NaN), Prim NaN))"




section \<open>Facts about the runtime\<close>

lemma SPEC_PROMISE_makeSpecFn:
  "SPEC_PROMISE (makeSpecFn b specs) = (body_hasPromises b \<or> list_ex SPEC_PROMISE specs)"
  by (simp add: makeSpecFn_def)

lemma run_makeSpecFn_sync:
  "\<not> SPEC_PROMISE (makeSpecFn b specs) \<Longrightarrow>
   run (makeSpecFn b specs) c st =
     (case body_evalFn b c specs st of
        (Inl e, st') \<Rightarrow> (Inl e, st')
      | (Inr vs, st') \<Rightarrow> body_fn b c vs st')"
  by (auto simp: makeSpecFn_def)

lemma run_makeSpecFn_deferred:
  "SPEC_PROMISE (makeSpecFn b specs) \<Longrightarrow>
   run (makeSpecFn b specs) c st =
     (case body_evalFn b c specs st of
        (Inl e, st') \<Rightarrow> (Inl e, st')
      | (Inr vs, st') \<Rightarrow> then_outcome (all_settled vs) (body_fn b c) st')"
  by (auto simp: makeSpecFn_def)



lemma run_ref_spec: "run (ref_spec t) c st = (Inr (c t), st)"
  by (simp add: ref_spec_def makeSpecFn_def body_hasPromises_def body_evalFn_def body_fn_def)


lemma SPEC_PROMISE_constant_spec: "SPEC_PROMISE (constant_spec v) = False"
  by (simp add: constant_spec_def makeSpecFn_def body_hasPromises_def)

lemma run_constant_spec: "run (constant_spec v) c st = (Inr v, st)"
  by (simp add: constant_spec_def makeSpecFn_def body_hasPromises_def body_evalFn_def body_fn_def)

lemma all_settled_single:
  "all_settled [v] = (case settled v of Inl e \<Rightarrow> Inl e | Inr x \<Rightarrow> Inr [x])"
  by (simp add: all_settled_def split: sum.splits)

lemma eval_specs_single:
  "eval_specs c [s] st = (case run s c st of (Inl e, st') \<Rightarrow> (Inl e, st') | (Inr v, st') \<Rightarrow> (Inr [v], st'))"
  by (simp split: prod.splits sum.splits)

text \<open>A spec with one child and the default evaluation of children.\<close>

lemma run_unary_sync:
  assumes "\<not> SPEC_PROMISE (makeSpecFn (Options \<lparr>evalFn = None, hasPromises = h, fn = f\<rparr>) [s])"
  shows "run (makeSpecFn (Options \<lparr>evalFn = None, hasPromises = h, fn = f\<rparr>) [s]) c st =
     (case run s c st of
        (Inl e, st') \<Rightarrow> (Inl e, st')
      | (Inr v, st') \<Rightarrow> f c [v] st')"
  using assms
  by (simp add: run_makeSpecFn_sync body_evalFn_def body_fn_def split: prod.splits sum.splits)

lemma then_outcome_single:
  "then_outcome (case r of Inl e \<Rightarrow> Inl e | Inr x \<Rightarrow> Inr [x]) f st = then_outcome r (\<lambda>x. f [x]) st"
  by (simp add: then_outcome_def split: sum.splits)

lemma run_unary_deferred:
  assumes "SPEC_PROMISE (makeSpecFn (Options \<lparr>evalFn = None, hasPromises = h, fn = f\<rparr>) [s])"
  shows "run (makeSpecFn (Options \<lparr>evalFn = None, hasPromises = h, fn = f\<rparr>) [s]) c st =
     (case run s c st of
        (Inl e, st') \<Rightarrow> (Inl e, st')
      | (Inr v, st') \<Rightarrow> then_outcome (settled v) (\<lambda>x. f c [x]) st')"
  using assms
  by (simp add: run_makeSpecFn_deferred body_evalFn_def body_fn_def all_settled_single
      then_outcome_single split: prod.splits sum.splits)

lemmas runtime_defs = makeSpecFn_def body_hasPromises_def body_evalFn_def body_fn_def
  constant_spec_def record_spec_def record_fn_def array_spec_def ref_spec_def arg0_def
  then_outcome_def settle_def all_settled_def promise_resolve_def with_binding_def new_array_def
  new_object_def new_promise_def empty_store_def enumerated_def copied_def

section \<open>The static flag of a composed spec\<close>




section \<open>Compilation with input\<close>

text \<open>
  Claim C9. Round trip of compilation: the function that \<^verbatim>\<open>input(i => i)\<close> returns, applied
  to any runtime value, returns that value unchanged (and leaves the store as it was).
\<close>

theorem input_identity:
  "\<exists>f. input (Function (\<lambda>i n. Inr (RSpec i, n))) n = Inr (f, Suc n) \<and>
       (\<forall>v st. f v st = (Inr v, st))"
  by (simp add: input_def call_function_def run_ref_spec with_binding_def)

theorem input_identity_witness:
  "\<exists>f. input (Function (\<lambda>i n. Inr (RSpec i, n))) 0 = Inr (f, Suc 0) \<and>
       f (Obj 5 [(''a'', Prim (Num 2))]) empty_store
         = (Inr (Obj 5 [(''a'', Prim (Num 2))]), empty_store)"
  using input_identity [of 0] by blast

section \<open>Arguments that must be functions\<close>

text \<open>
  Claim C2 says that \<^verbatim>\<open>call\<close>, \<^verbatim>\<open>map\<close>, \<^verbatim>\<open>object\<close>, \<^verbatim>\<open>bind\<close>, \<^verbatim>\<open>cache\<close> and \<^verbatim>\<open>input\<close> raise
  \<^verbatim>\<open>IllegalSpecError\<close> when their function argument is not a function. Only \<^verbatim>\<open>map\<close> and
  \<^verbatim>\<open>call\<close> call \<^verbatim>\<open>requireFunction\<close>; the other four call the argument directly, and what is
  raised (at construction time) is the engine's \<^verbatim>\<open>TypeError\<close>.
\<close>

theorem nonfunction_argument:
  "map_spec a (NonFunction v) n = Inl (IllegalSpecError ''argument must be function'') \<and>
   call (NonFunction v) as = Inl (IllegalSpecError ''argument must be function'') \<and>
   object a (NonFunction v) n = Inl (TypeError ''is not a function'') \<and>
   bind_spec a (NonFunction v) n = Inl (TypeError ''is not a function'') \<and>
   cache a (NonFunction v) n = Inl (TypeError ''is not a function'') \<and>
   input (NonFunction v) n = Inl (TypeError ''is not a function'')"
  by (simp add: map_spec_def call_def object_def bind_spec_def cache_def input_def
      requireFunction_def call_function_def)

section \<open>object\<close>

text \<open>
  Claim C1, as amended. \<^verbatim>\<open>object(objectSpec, fn)\<close> binds a fresh token and builds the result
  spec from \<^verbatim>\<open>fn(propAccessor)\<close>; its flag is the result spec's flag or the object spec's.
  When the object spec evaluates to a falsy value (\<^verbatim>\<open>undefined\<close>, \<^verbatim>\<open>null\<close>, \<^verbatim>\<open>false\<close>, \<^verbatim>\<open>0\<close>,
  \<^verbatim>\<open>NaN\<close> or the empty string) the whole spec evaluates to \<^verbatim>\<open>undefined\<close> and the result spec
  is not evaluated: the store is the one the object spec left. When it evaluates to a
  truthy value, the result is that of the result spec in the context extended by the
  binding of the token to the value. A spec with the flag awaits the object first and
  returns its result as a new promise. A failure of the object spec is passed on.
\<close>

theorem object_falsy_or_bound:
  assumes "object objectSpec (Function f) n = Inr (s, n')"
  shows "\<exists>r. f (accessor n) (Suc n) = Inr (r, n') \<and>
     SPEC_PROMISE s = (SPEC_PROMISE (ensureSpec r) \<or> SPEC_PROMISE (ensureSpec objectSpec)) \<and>
     (\<forall>c st obj st1.
        run (ensureSpec objectSpec) c st = (Inr obj, st1) \<longrightarrow> \<not> SPEC_PROMISE s \<longrightarrow>
          run s c st =
            (if truthy obj then run (ensureSpec r) (with_binding c n obj) st1
             else (Inr (Prim Undefined), st1))) \<and>
     (\<forall>c st v obj st1.
        run (ensureSpec objectSpec) c st = (Inr v, st1) \<longrightarrow> settled v = Inr obj \<longrightarrow> SPEC_PROMISE s \<longrightarrow>
          run s c st =
            (if truthy obj
             then then_outcome (Inr obj) (\<lambda>x. run (ensureSpec r) (with_binding c n x)) st1
             else new_promise (Inr (Prim Undefined)) st1)) \<and>
     (\<forall>c st e st1.
        run (ensureSpec objectSpec) c st = (Inl e, st1) \<longrightarrow> run s c st = (Inl e, st1)) \<and>
     (\<forall>c st v e st1.
        run (ensureSpec objectSpec) c st = (Inr v, st1) \<longrightarrow> settled v = Inl e \<longrightarrow> SPEC_PROMISE s \<longrightarrow>
          run s c st = settle (Inl e) st1)"
proof -
  from assms obtain r where r: "f (accessor n) (Suc n) = Inr (r, n')"
    and s: "s = makeSpecFn (Options \<lparr>evalFn = None, hasPromises = SPEC_PROMISE (ensureSpec r),
                fn = object_fn n (ensureSpec r)\<rparr>) [ensureSpec objectSpec]"
    by (auto simp: object_def call_function_def Let_def split: sum.splits prod.splits)
  have flag: "SPEC_PROMISE s = (SPEC_PROMISE (ensureSpec r) \<or> SPEC_PROMISE (ensureSpec objectSpec))"
    by (simp add: s SPEC_PROMISE_makeSpecFn body_hasPromises_def)
  have sync: "run s c st =
            (if truthy obj then run (ensureSpec r) (with_binding c n obj) st1
             else (Inr (Prim Undefined), st1))"
    if "run (ensureSpec objectSpec) c st = (Inr obj, st1)" "\<not> SPEC_PROMISE s" for c st obj st1
    using that unfolding s
    by (simp add: run_unary_sync object_fn_def arg0_def)
  have deferred: "run s c st =
            (if truthy obj
             then then_outcome (Inr obj) (\<lambda>x. run (ensureSpec r) (with_binding c n x)) st1
             else new_promise (Inr (Prim Undefined)) st1)"
    if "run (ensureSpec objectSpec) c st = (Inr v, st1)" "settled v = Inr obj" "SPEC_PROMISE s" for c st v obj st1
    using that unfolding s
    by (simp add: run_unary_deferred object_fn_def arg0_def then_outcome_def settle_def)
  have raised: "run s c st = (Inl e, st1)"
    if "run (ensureSpec objectSpec) c st = (Inl e, st1)" for c st e st1
    using that unfolding s
    by (cases "SPEC_PROMISE (makeSpecFn (Options \<lparr>evalFn = None, hasPromises = SPEC_PROMISE (ensureSpec r),
                fn = object_fn n (ensureSpec r)\<rparr>) [ensureSpec objectSpec])")
       (simp_all add: run_unary_sync run_unary_deferred)
  have rejected: "run s c st = settle (Inl e) st1"
    if "run (ensureSpec objectSpec) c st = (Inr v, st1)" "settled v = Inl e" "SPEC_PROMISE s" for c st v e st1
    using that unfolding s
    by (simp add: run_unary_deferred then_outcome_def)
  from r flag sync deferred raised rejected show ?thesis by blast
qed

text \<open>
  The claim as stated has the result spec evaluated for every present value, the falsy ones
  included. \<^verbatim>\<open>object(0, prop => 1)\<close> evaluates to \<^verbatim>\<open>undefined\<close>, although the object spec
  evaluates to \<open>0\<close> and the result spec to \<open>1\<close>: the guard of the source is \<^verbatim>\<open>if (!obj)\<close>.
\<close>

theorem object_falsy_counterexample:
  "(case object (RLit (Num 0)) (Function (\<lambda>prop n. Inr (RLit (Num 1), n))) 0 of
      Inl e \<Rightarrow> Inl e
    | Inr (s, n') \<Rightarrow> fst (run s empty_ctx empty_store)) = Inr (Prim Undefined) \<and>
   fst (run (ensureSpec (RLit (Num 0))) empty_ctx empty_store) = Inr (Prim (Num 0)) \<and>
   fst (run (ensureSpec (RLit (Num 1))) (with_binding empty_ctx 0 (Prim (Num 0))) empty_store)
     = Inr (Prim (Num 1))"
  by (simp add: object_def call_function_def run_constant_spec SPEC_PROMISE_constant_spec
      makeSpecFn_def body_hasPromises_def body_evalFn_def body_fn_def object_fn_def arg0_def)

theorem object_falsy_or_bound_witness:
  "(\<exists>s. object (RLit Undefined) (Function (\<lambda>prop n. Inr (RLit (Num 1), n))) 0 = Inr (s, Suc 0) \<and>
       \<not> SPEC_PROMISE s \<and>
       run s empty_ctx empty_store = (Inr (Prim Undefined), empty_store)) \<and>
   (\<exists>s. object (RObj [(''a'', RLit (Num 1)), (''b'', RLit (Num 2))])
          (Function (\<lambda>prop n. Inr (RSpec (prop (RLit (Str ''a'')) False), n))) 0 = Inr (s, Suc 0) \<and>
       \<not> SPEC_PROMISE s \<and>
       fst (run s empty_ctx empty_store) = Inr (Prim (Num 1))) \<and>
   (\<exists>s. object (RSpec (resolve (RObj [(''a'', RLit (Num 1))])))
          (Function (\<lambda>prop n. Inr (RSpec (prop (RLit (Str ''a'')) False), n))) 0 = Inr (s, Suc 0) \<and>
       SPEC_PROMISE s \<and>
       fst (run s empty_ctx empty_store) = Inr (Promise 3 (Inr (Prim (Num 1)))))"
proof (intro conjI)
  let ?f = "\<lambda>(prop :: raw \<Rightarrow> bool \<Rightarrow> spec) (n :: nat). (Inr (RLit (Num 1), n) :: error + raw \<times> nat)"
  obtain s where s: "object (RLit Undefined) (Function ?f) 0 = Inr (s, Suc 0)"
    by (simp add: object_def call_function_def Let_def)
  from object_falsy_or_bound [OF s]
  have flag: "\<not> SPEC_PROMISE s"
    and sync: "\<And>c st obj st1. run (ensureSpec (RLit Undefined)) c st = (Inr obj, st1) \<Longrightarrow> \<not> SPEC_PROMISE s \<Longrightarrow>
          run s c st =
            (if truthy obj then run (ensureSpec (RLit (Num 1))) (with_binding c 0 obj) st1
             else (Inr (Prim Undefined), st1))"
    by (auto simp: SPEC_PROMISE_constant_spec)
  have "run s empty_ctx empty_store = (Inr (Prim Undefined), empty_store)"
    using sync [of empty_ctx empty_store "Prim Undefined" empty_store] flag
    by (simp add: run_constant_spec)
  with s flag show "\<exists>s. object (RLit Undefined) (Function ?f) 0 = Inr (s, Suc 0) \<and>
       \<not> SPEC_PROMISE s \<and> run s empty_ctx empty_store = (Inr (Prim Undefined), empty_store)"
    by blast
next
  let ?f = "\<lambda>(prop :: raw \<Rightarrow> bool \<Rightarrow> spec) (n :: nat). (Inr (RSpec (prop (RLit (Str ''a'')) False), n) :: error + raw \<times> nat)"
  let ?o = "RObj [(''a'', RLit (Num 1)), (''b'', RLit (Num 2))]"
  obtain s where s: "object ?o (Function ?f) 0 = Inr (s, Suc 0)"
    by (simp add: object_def call_function_def Let_def)
  have o: "run (ensureSpec ?o) empty_ctx empty_store
             = (Inr (Obj 0 [(''a'', Prim (Num 1)), (''b'', Prim (Num 2))]), empty_store\<lparr>next_id := 1\<rparr>)"
    by (simp add: enumerated_def copied_def runtime_defs)
  from object_falsy_or_bound [OF s] obtain r where
    r: "?f (accessor 0) (Suc 0) = Inr (r, Suc 0)"
    and flag: "SPEC_PROMISE s = (SPEC_PROMISE (ensureSpec r) \<or> SPEC_PROMISE (ensureSpec ?o))"
    and sync: "\<And>c st obj st1. run (ensureSpec ?o) c st = (Inr obj, st1) \<Longrightarrow> \<not> SPEC_PROMISE s \<Longrightarrow>
          run s c st =
            (if truthy obj then run (ensureSpec r) (with_binding c 0 obj) st1
             else (Inr (Prim Undefined), st1))"
    by blast
  from r have r': "r = RSpec (accessor 0 (RLit (Str ''a'')) False)" by simp
  have f: "\<not> SPEC_PROMISE s"
    using flag unfolding r' by (simp add: accessor_def runtime_defs)
  have "fst (run s empty_ctx empty_store) = Inr (Prim (Num 1))"
    using sync [OF o f] unfolding r'
    by (simp add: accessor_def property_fn_def runtime_defs)
  with s f show "\<exists>s. object ?o (Function ?f) 0 = Inr (s, Suc 0) \<and>
       \<not> SPEC_PROMISE s \<and> fst (run s empty_ctx empty_store) = Inr (Prim (Num 1))"
    by blast
next
  let ?f = "\<lambda>(prop :: raw \<Rightarrow> bool \<Rightarrow> spec) (n :: nat). (Inr (RSpec (prop (RLit (Str ''a'')) False), n) :: error + raw \<times> nat)"
  let ?o = "RSpec (resolve (RObj [(''a'', RLit (Num 1))]))"
  obtain s where s: "object ?o (Function ?f) 0 = Inr (s, Suc 0)"
    by (simp add: object_def call_function_def Let_def)
  have o: "run (ensureSpec ?o) empty_ctx empty_store
             = (Inr (Promise 2 (Inr (Obj 0 [(''a'', Prim (Num 1))]))), empty_store\<lparr>next_id := 3\<rparr>)"
    by (simp add: resolve_def enumerated_def copied_def runtime_defs)
  from object_falsy_or_bound [OF s] obtain r where
    r: "?f (accessor 0) (Suc 0) = Inr (r, Suc 0)"
    and flag: "SPEC_PROMISE s = (SPEC_PROMISE (ensureSpec r) \<or> SPEC_PROMISE (ensureSpec ?o))"
    and deferred: "\<And>c st v obj st1. run (ensureSpec ?o) c st = (Inr v, st1) \<Longrightarrow> settled v = Inr obj \<Longrightarrow> SPEC_PROMISE s \<Longrightarrow>
          run s c st =
            (if truthy obj
             then then_outcome (Inr obj) (\<lambda>x. run (ensureSpec r) (with_binding c 0 x)) st1
             else new_promise (Inr (Prim Undefined)) st1)"
    by blast
  from r have r': "r = RSpec (accessor 0 (RLit (Str ''a'')) False)" by simp
  have f: "SPEC_PROMISE s"
    using flag by (simp add: resolve_def runtime_defs)
  have "fst (run s empty_ctx empty_store) = Inr (Promise 3 (Inr (Prim (Num 1))))"
    using deferred [OF o _ f, of "Obj 0 [(''a'', Prim (Num 1))]"] unfolding r'
    by (simp add: accessor_def property_fn_def runtime_defs)
  with s f show "\<exists>s. object ?o (Function ?f) 0 = Inr (s, Suc 0) \<and>
       SPEC_PROMISE s \<and> fst (run s empty_ctx empty_store) = Inr (Promise 3 (Inr (Prim (Num 1))))"
    by blast
qed

section \<open>Facts about lifted arrays and objects\<close>

lemma enumerated_plain:
  "''__proto__'' \<notin> set (map fst kvs) \<Longrightarrow> enumerated kvs = kvs"
proof -
  assume a: "''__proto__'' \<notin> set (map fst kvs)"
  then have "map_of kvs ''__proto__'' = None"
    by (simp add: map_of_eq_None_iff)
  moreover from a have "filter (\<lambda>kv. fst kv \<noteq> ''__proto__'') kvs = kvs"
    by (intro filter_True) force
  ultimately show ?thesis by (simp add: enumerated_def copied_def)
qed

lemma set_prop_fresh: "k \<notin> set (map fst obj) \<Longrightarrow> set_prop obj k v = obj @ [(k, v)]"
  by (induction obj) auto

lemma build_object_nil: "build_object names [] obj = Inr obj"
  by (induction names) simp_all

lemma build_object_filter:
  "distinct names \<Longrightarrow> ''__proto__'' \<notin> set names \<Longrightarrow> set names \<inter> set (map fst obj) = {} \<Longrightarrow>
   build_object names attrs obj =
     Inr (obj @ filter (\<lambda>(k, v). v \<noteq> Prim Undefined) (zip names attrs))"
proof (induction names arbitrary: attrs obj)
  case Nil
  then show ?case by simp
next
  case (Cons name names)
  from Cons.prems have np: "name \<noteq> ''__proto__''" and nps: "''__proto__'' \<notin> set names"
    and d: "distinct names" and n: "name \<notin> set names" and fresh: "name \<notin> set (map fst obj)"
    by auto
  show ?case
  proof (cases attrs)
    case Nil
    then show ?thesis by (simp add: build_object_nil)
  next
    case (Cons a attrs')
    show ?thesis
    proof (cases "a = Prim Undefined")
      case True
      have "set names \<inter> set (map fst obj) = {}" using Cons.prems by auto
      from Cons.IH [OF d nps this, of attrs'] True Cons show ?thesis by simp
    next
      case False
      have disj: "set names \<inter> set (map fst (set_prop obj name a)) = {}"
        using Cons.prems n by (auto simp: set_prop_fresh [OF fresh])
      from Cons.IH [OF d nps disj, of attrs'] False np Cons show ?thesis
        by (simp add: set_prop_fresh [OF fresh])
    qed
  qed
qed

lemma eval_specs_length:
  "eval_specs c specs st = (Inr vs, st') \<Longrightarrow> length vs = length specs"
  by (induction specs arbitrary: vs st st') (auto split: prod.splits sum.splits)

lemma fulfilments_length:
  "rejections vs = [] \<Longrightarrow> length (fulfilments vs) = length vs"
  by (induction vs) (auto split: sum.splits)

lemma all_settled_length: "all_settled vs = Inr ws \<Longrightarrow> length ws = length vs"
  by (auto simp: all_settled_def fulfilments_length split: list.splits)

lemma SPEC_PROMISE_record_spec:
  "SPEC_PROMISE (record_spec names specs) = list_ex SPEC_PROMISE specs"
  by (simp add: record_spec_def SPEC_PROMISE_makeSpecFn body_hasPromises_def)

lemma run_record_spec_sync:
  "\<not> list_ex SPEC_PROMISE specs \<Longrightarrow>
   run (record_spec names specs) c st =
     (case eval_specs c specs st of
        (Inl e, st') \<Rightarrow> (Inl e, st')
      | (Inr attrs, st') \<Rightarrow> record_fn names c attrs st')"
  by (simp add: record_spec_def makeSpecFn_def body_hasPromises_def body_evalFn_def body_fn_def
      split: prod.splits sum.splits)

lemma run_record_spec_deferred:
  "list_ex SPEC_PROMISE specs \<Longrightarrow>
   run (record_spec names specs) c st =
     (case eval_specs c specs st of
        (Inl e, st') \<Rightarrow> (Inl e, st')
      | (Inr attrs, st') \<Rightarrow> then_outcome (all_settled attrs) (record_fn names c) st')"
  by (simp add: record_spec_def makeSpecFn_def body_hasPromises_def body_evalFn_def body_fn_def
      split: prod.splits sum.splits)


lemma SPEC_PROMISE_record_spec_nil: "SPEC_PROMISE (record_spec [] []) = False"
  by (simp add: record_spec_def makeSpecFn_def body_hasPromises_def)

lemma ensureSpec_RObj_plain:
  "''__proto__'' \<notin> set (map fst kvs) \<Longrightarrow>
   ensureSpec (RObj kvs) = record_spec (map fst kvs) (map (ensureSpec \<circ> snd) kvs)"
  by (simp add: enumerated_plain comp_def)



section \<open>Lifting keyed records\<close>

text \<open>
  Records that have no own key \<^verbatim>\<open>__proto__\<close>. Let \<open>kvs\<close> be such a record
  (its keys distinct) and let the lifted values of its properties evaluate, in order, to
  \<open>attrs\<close>. Then there is one value per key, and the spec \<^verbatim>\<open>ensureSpec\<close> returns for the
  record evaluates to a new record of exactly those keys whose value is not \<^verbatim>\<open>undefined\<close>,
  each with its value: directly when no lifted value may defer, and otherwise as a new
  promise of that record, built from the awaited values.
\<close>

theorem ensureSpec_record_omits_absent:
  assumes "distinct (map fst kvs)"
    and "''__proto__'' \<notin> set (map fst kvs)"
    and "eval_specs c (map (ensureSpec \<circ> snd) kvs) st = (Inr attrs, st')"
  shows "length attrs = length kvs \<and>
     (\<not> SPEC_PROMISE (ensureSpec (RObj kvs)) \<longrightarrow>
        run (ensureSpec (RObj kvs)) c st =
          new_object (filter (\<lambda>(k, v). v \<noteq> Prim Undefined) (zip (map fst kvs) attrs)) st') \<and>
     (SPEC_PROMISE (ensureSpec (RObj kvs)) \<longrightarrow>
        (\<forall>ws. all_settled attrs = Inr ws \<longrightarrow>
           length ws = length kvs \<and>
           run (ensureSpec (RObj kvs)) c st =
             new_promise
               (Inr (Obj (next_id st')
                      (filter (\<lambda>(k, v). v \<noteq> Prim Undefined) (zip (map fst kvs) ws))))
               (st'\<lparr>next_id := Suc (next_id st')\<rparr>)))"
proof -
  note spec = ensureSpec_RObj_plain [OF assms(2)]
  have len: "length attrs = length kvs"
    using eval_specs_length [OF assms(3)] by simp
  have build: "record_fn (map fst kvs) c xs s =
      new_object (filter (\<lambda>(k, v). v \<noteq> Prim Undefined) (zip (map fst kvs) xs)) s" for xs s
    using build_object_filter [OF assms(1) assms(2), of "[]" xs] by (simp add: record_fn_def)
  have flag: "SPEC_PROMISE (ensureSpec (RObj kvs)) = list_ex SPEC_PROMISE (map (ensureSpec \<circ> snd) kvs)"
    by (simp only: spec SPEC_PROMISE_record_spec)
  have sync: "run (ensureSpec (RObj kvs)) c st =
          new_object (filter (\<lambda>(k, v). v \<noteq> Prim Undefined) (zip (map fst kvs) attrs)) st'"
    if "\<not> SPEC_PROMISE (ensureSpec (RObj kvs))"
  proof -
    from that flag have "\<not> list_ex SPEC_PROMISE (map (ensureSpec \<circ> snd) kvs)" by simp
    from run_record_spec_sync [OF this, of "map fst kvs" c st] assms(3) show ?thesis
      by (simp only: spec build prod.case sum.case)
  qed
  have deferred: "length ws = length kvs \<and> run (ensureSpec (RObj kvs)) c st =
             new_promise
               (Inr (Obj (next_id st')
                      (filter (\<lambda>(k, v). v \<noteq> Prim Undefined) (zip (map fst kvs) ws))))
               (st'\<lparr>next_id := Suc (next_id st')\<rparr>)"
    if "SPEC_PROMISE (ensureSpec (RObj kvs))" "all_settled attrs = Inr ws" for ws
  proof -
    from that flag have "list_ex SPEC_PROMISE (map (ensureSpec \<circ> snd) kvs)" by simp
    from run_record_spec_deferred [OF this, of "map fst kvs" c st] assms(3) that(2)
    have "run (ensureSpec (RObj kvs)) c st = then_outcome (Inr ws) (record_fn (map fst kvs) c) st'"
      by (simp only: spec prod.case sum.case)
    then have "run (ensureSpec (RObj kvs)) c st =
             new_promise
               (Inr (Obj (next_id st')
                      (filter (\<lambda>(k, v). v \<noteq> Prim Undefined) (zip (map fst kvs) ws))))
               (st'\<lparr>next_id := Suc (next_id st')\<rparr>)"
      by (simp add: then_outcome_def build new_object_def settle_def new_promise_def)
    with len all_settled_length [OF that(2)] show ?thesis by simp
  qed
  from len sync deferred show ?thesis by blast
qed

theorem ensureSpec_record_omits_absent_witness:
  "fst (run (ensureSpec (RObj [(''a'', RSpec (constant_spec (Prim Undefined))), (''b'', RLit (Num 2))]))
       empty_ctx empty_store)
     = Inr (Obj 0 [(''b'', Prim (Num 2))]) \<and>
   fst (run (ensureSpec (RObj [(''a'', RSpec (resolve (RLit Undefined))), (''b'', RLit (Num 2))]))
       empty_ctx empty_store)
     = Inr (Promise 3 (Inr (Obj 2 [(''b'', Prim (Num 2))])))"
proof
  let ?kvs = "[(''a'', RSpec (constant_spec (Prim Undefined))), (''b'', RLit (Num 2))]"
  have d: "distinct (map fst ?kvs)" and p: "''__proto__'' \<notin> set (map fst ?kvs)" by simp_all
  have e: "eval_specs empty_ctx (map (ensureSpec \<circ> snd) ?kvs) empty_store
             = (Inr [Prim Undefined, Prim (Num 2)], empty_store)"
    by (simp add: run_constant_spec)
  have f: "\<not> SPEC_PROMISE (ensureSpec (RObj ?kvs))"
    by (simp add: ensureSpec_RObj_plain SPEC_PROMISE_record_spec SPEC_PROMISE_constant_spec
        del: ensureSpec.simps(4))
  from ensureSpec_record_omits_absent [OF d p e] f
  show "fst (run (ensureSpec (RObj ?kvs)) empty_ctx empty_store) = Inr (Obj 0 [(''b'', Prim (Num 2))])"
    by (simp add: new_object_def empty_store_def del: ensureSpec.simps(4))
next
  let ?kvs = "[(''a'', RSpec (resolve (RLit Undefined))), (''b'', RLit (Num 2))]"
  have d: "distinct (map fst ?kvs)" and p: "''__proto__'' \<notin> set (map fst ?kvs)" by simp_all
  have e: "eval_specs empty_ctx (map (ensureSpec \<circ> snd) ?kvs) empty_store
             = (Inr [Promise 1 (Inr (Prim Undefined)), Prim (Num 2)], empty_store\<lparr>next_id := 2\<rparr>)"
    by (simp add: run_constant_spec resolve_def runtime_defs)
  have f: "SPEC_PROMISE (ensureSpec (RObj ?kvs))"
    by (simp add: ensureSpec_RObj_plain SPEC_PROMISE_record_spec resolve_def SPEC_PROMISE_makeSpecFn
        body_hasPromises_def del: ensureSpec.simps(4))
  have a: "all_settled [Promise 1 (Inr (Prim Undefined)), Prim (Num 2)] = Inr [Prim Undefined, Prim (Num 2)]"
    by (simp add: all_settled_def)
  from ensureSpec_record_omits_absent [OF d p e] f a
  show "fst (run (ensureSpec (RObj ?kvs)) empty_ctx empty_store)
          = Inr (Promise 3 (Inr (Obj 2 [(''b'', Prim (Num 2))])))"
    by (simp add: new_promise_def empty_store_def del: ensureSpec.simps(4))
qed

text \<open>
  Claim C8 says that the evaluated record has exactly those keys of the lifted record whose
  value is not absent. The record \<^verbatim>\<open>{['__proto__']: 1, a: 2}\<close> has the own key \<^verbatim>\<open>__proto__\<close>
  with a value that is not absent; its lifted spec evaluates to \<^verbatim>\<open>{a: 2}\<close>, because the
  copy \<^verbatim>\<open>Object.assign({}, spec)\<close> loses that key. When the value of the key is an object,
  as in \<^verbatim>\<open>{['__proto__']: {x: 1}}\<close>, the result has the keys of that object instead.
\<close>

theorem ensureSpec_record_proto_key:
  "fst (run (ensureSpec (RObj [(''__proto__'', RLit (Num 1)), (''a'', RLit (Num 2))]))
        empty_ctx empty_store)
     = Inr (Obj 0 [(''a'', Prim (Num 2))]) \<and>
   fst (run (ensureSpec (RObj [(''__proto__'', RObj [(''x'', RLit (Num 1))])]))
        empty_ctx empty_store)
     = Inr (Obj 0 [(''x'', Prim (Num 1))])"
  by (simp add: runtime_defs)

section \<open>Lifting literals\<close>


lemma shape_Undefined: "shape w = Prim Undefined \<longleftrightarrow> w = Prim Undefined"
  by (cases w) auto

lemma omit_absent_Undefined: "shape (omit_absent w) = Prim Undefined \<longleftrightarrow> omit_absent w = Prim Undefined"
  by (rule shape_Undefined)








section \<open>The case object of cases\<close>

lemma set_prop_present:
  "distinct (map fst obj) \<Longrightarrow> k \<in> set (map fst obj) \<Longrightarrow>
   set_prop obj k x = map (\<lambda>(k', v). if k' = k then (k', x) else (k', v)) obj"
proof (induction obj)
  case Nil
  then show ?case by simp
next
  case (Cons kv obj)
  obtain k' v' where kv: "kv = (k', v')" by (cases kv)
  show ?case
  proof (cases "k' = k")
    case True
    with Cons.prems kv have "\<forall>p \<in> set obj. fst p \<noteq> k" by auto
    then have "map (\<lambda>(k', v). if k' = k then (k', x) else (k', v)) obj = obj"
      by (intro map_idI) (auto split: prod.splits)
    with True kv show ?thesis by simp
  next
    case False
    with Cons kv show ?thesis by auto
  qed
qed

lemma own_prop_present:
  "distinct (map fst obj) \<Longrightarrow> (k, v) \<in> set obj \<Longrightarrow> own_prop obj k = v"
  by (simp add: own_prop_def)

lemma lift_cases_object:
  "distinct (map fst obj) \<Longrightarrow> distinct names \<Longrightarrow> set names \<subseteq> set (map fst obj) \<Longrightarrow>
   fst (lift_cases names obj promises) =
     map (\<lambda>(k, v). if k \<in> set names then (k, RSpec (ensureSpec v)) else (k, v)) obj"
proof (induction names arbitrary: obj promises)
  case Nil
  then show ?case by (simp add: map_idI split: prod.splits)
next
  case (Cons name names)
  let ?x = "RSpec (ensureSpec (own_prop obj name))"
  let ?obj' = "set_prop obj name ?x"
  from Cons.prems have present: "name \<in> set (map fst obj)" and fresh: "name \<notin> set names"
    and dn: "distinct names" and sub: "set names \<subseteq> set (map fst obj)"
    by auto
  have obj': "?obj' = map (\<lambda>(k', v). if k' = name then (k', ?x) else (k', v)) obj"
    by (rule set_prop_present [OF Cons.prems(1) present])
  have keys: "map fst ?obj' = map fst obj"
    unfolding obj' by (induction obj) (auto split: prod.splits)
  have "fst (lift_cases names ?obj' (promises \<or> SPEC_PROMISE (ensureSpec (own_prop obj name)))) =
     map (\<lambda>(k, v). if k \<in> set names then (k, RSpec (ensureSpec v)) else (k, v)) ?obj'"
    using Cons.IH [of ?obj'] Cons.prems(1) dn sub keys by simp
  also have "\<dots> = map (\<lambda>(k, v). if k \<in> set (name # names) then (k, RSpec (ensureSpec v)) else (k, v)) obj"
    unfolding obj' using fresh own_prop_present [OF Cons.prems(1)]
    by (auto split: prod.splits)
  finally show ?case by (simp add: Let_def)
qed

text \<open>
  \<^verbatim>\<open>cases(spec, caseSpecs)\<close> writes into the object the caller passed: when the
  construction is over, every entry of the caller's case object (its keys distinct) holds
  the spec that \<^verbatim>\<open>ensureSpec\<close> returns for the value it held before, so an object that held a
  value which was not a spec has changed.
\<close>

theorem cases_replaces_entries:
  assumes "distinct (map fst caseSpecs)"
  shows "snd (cases_spec spec0 caseSpecs) = map (\<lambda>(k, v). (k, RSpec (ensureSpec v))) caseSpecs \<and>
     (\<forall>k v. (k, v) \<in> set caseSpecs \<longrightarrow> (\<forall>s. v \<noteq> RSpec s) \<longrightarrow>
        snd (cases_spec spec0 caseSpecs) \<noteq> caseSpecs)"
proof -
  have "fst (lift_cases (map fst caseSpecs) caseSpecs p) =
      map (\<lambda>(k, v). (k, RSpec (ensureSpec v))) caseSpecs" for p
  proof -
    have "map (\<lambda>(k, v). if k \<in> set (map fst caseSpecs) then (k, RSpec (ensureSpec v)) else (k, v)) caseSpecs
        = map (\<lambda>(k, v). (k, RSpec (ensureSpec v))) caseSpecs"
      by (intro map_cong) (force split: prod.splits)+
    with lift_cases_object [OF assms assms, of p] show ?thesis by simp
  qed
  then have eq: "snd (cases_spec spec0 caseSpecs) = map (\<lambda>(k, v). (k, RSpec (ensureSpec v))) caseSpecs"
    by (simp add: cases_spec_def Let_def split: prod.splits if_splits)
      (metis fst_conv)
  have "snd (cases_spec spec0 caseSpecs) \<noteq> caseSpecs"
    if "(k, v) \<in> set caseSpecs" "\<forall>s. v \<noteq> RSpec s" for k v
  proof
    assume "snd (cases_spec spec0 caseSpecs) = caseSpecs"
    with eq have "map (\<lambda>(k, v). (k, RSpec (ensureSpec v))) caseSpecs = caseSpecs" by simp
    then have "(\<lambda>(k, v). (k, RSpec (ensureSpec v))) (k, v) = (k, v)"
      using that(1) by (metis map_eq_conv list.map_id id_apply)
    then have "v = RSpec (ensureSpec v)" by simp
    with that(2) show False by blast
  qed
  with eq show ?thesis by blast
qed

theorem cases_replaces_entries_witness:
  "snd (cases_spec (RLit (Str ''b'')) [(''a'', RLit (Num 1)), (''b'', RSpec (constant_spec (Prim (Num 2))))])
     = [(''a'', RSpec (ensureSpec (RLit (Num 1)))), (''b'', RSpec (constant_spec (Prim (Num 2))))] \<and>
   snd (cases_spec (RLit (Str ''b'')) [(''a'', RLit (Num 1)), (''b'', RSpec (constant_spec (Prim (Num 2))))])
     \<noteq> [(''a'', RLit (Num 1)), (''b'', RSpec (constant_spec (Prim (Num 2))))]"
  using cases_replaces_entries [of "[(''a'', RLit (Num 1)), (''b'', RSpec (constant_spec (Prim (Num 2))))]" "RLit (Str ''b'')"]
  by auto

section \<open>Dispatch on the case object\<close>

lemma set_prop_keys:
  "k \<in> set (map fst obj) \<Longrightarrow> map fst (set_prop obj k x) = map fst obj"
  by (induction obj) force+

lemma own_prop_set_prop_other:
  "k' \<noteq> k \<Longrightarrow> own_prop (set_prop obj k x) k' = own_prop obj k'"
  by (induction obj) (auto simp: own_prop_def)

lemma lift_cases_flag:
  "distinct names \<Longrightarrow> set names \<subseteq> set (map fst obj) \<Longrightarrow>
   snd (lift_cases names obj promises) =
     (promises \<or> (\<exists>k \<in> set names. SPEC_PROMISE (ensureSpec (own_prop obj k))))"
proof (induction names arbitrary: obj promises)
  case Nil
  then show ?case by simp
next
  case (Cons name names)
  let ?obj' = "set_prop obj name (RSpec (ensureSpec (own_prop obj name)))"
  from Cons.prems have present: "name \<in> set (map fst obj)" and fresh: "name \<notin> set names"
    and dn: "distinct names" and sub: "set names \<subseteq> set (map fst obj)"
    by auto
  have other: "own_prop ?obj' k = own_prop obj k" if "k \<in> set names" for k
    using that fresh by (intro own_prop_set_prop_other) auto
  from Cons.IH [of ?obj', OF dn] sub set_prop_keys [OF present]
  have "snd (lift_cases names ?obj' p) =
     (p \<or> (\<exists>k \<in> set names. SPEC_PROMISE (ensureSpec (own_prop ?obj' k))))" for p
    by simp
  then show ?case by (auto simp: Let_def other)
qed

lemma map_of_lifted:
  "map_of (map (\<lambda>(k, v). (k, RSpec (ensureSpec v))) cm) key =
     map_option (\<lambda>v. RSpec (ensureSpec v)) (map_of cm key)"
  by (induction cm) auto

lemma select_case_lifted:
  "select_case (map (\<lambda>(k, v). (k, RSpec (ensureSpec v))) cm) c caseValue st =
     (case to_property_key caseValue of
        Inl e \<Rightarrow> (Inl e, st)
      | Inr key \<Rightarrow>
          (case map_of cm key of
             Some r \<Rightarrow> run (ensureSpec r) c st
           | None \<Rightarrow>
               if key \<in> set object_prototype then call_inherited key st
               else (Inr (Prim Undefined), st)))"
  by (simp add: select_case_def map_of_lifted split: sum.splits option.splits)

lemma cases_spec_flag:
  assumes "distinct (map fst cm)"
  shows "SPEC_PROMISE (fst (cases_spec sel cm)) =
     (SPEC_PROMISE (ensureSpec sel) \<or> (\<exists>v \<in> set (map snd cm). SPEC_PROMISE (ensureSpec v)))"
proof -
  have "(\<exists>k \<in> set (map fst cm). SPEC_PROMISE (ensureSpec (own_prop cm k))) =
        (\<exists>v \<in> set (map snd cm). SPEC_PROMISE (ensureSpec v))"
    using own_prop_present [OF assms] by force
  with lift_cases_flag [OF assms, of cm "SPEC_PROMISE (ensureSpec sel)"]
  have "snd (lift_cases (map fst cm) cm (SPEC_PROMISE (ensureSpec sel))) =
     (SPEC_PROMISE (ensureSpec sel) \<or> (\<exists>v \<in> set (map snd cm). SPEC_PROMISE (ensureSpec v)))"
    by simp
  then show ?thesis
    by (auto simp: cases_spec_def Let_def split: prod.splits)
qed

lemma cases_spec_run:
  assumes "distinct (map fst cm)"
  shows "run (fst (cases_spec sel cm)) c st =
     (case run (ensureSpec sel) c st of
        (Inl e, st1) \<Rightarrow> (Inl e, st1)
      | (Inr v, st1) \<Rightarrow>
          if SPEC_PROMISE (fst (cases_spec sel cm))
          then then_outcome (settled v)
                 (select_case (map (\<lambda>(k, v). (k, RSpec (ensureSpec v))) cm) c) st1
          else select_case (map (\<lambda>(k, v). (k, RSpec (ensureSpec v))) cm) c v st1)"
proof -
  have obj: "fst (lift_cases (map fst cm) cm p) = map (\<lambda>(k, v). (k, RSpec (ensureSpec v))) cm" for p
  proof -
    have "map (\<lambda>(k, v). if k \<in> set (map fst cm) then (k, RSpec (ensureSpec v)) else (k, v)) cm
        = map (\<lambda>(k, v). (k, RSpec (ensureSpec v))) cm"
      by (intro map_cong) (force split: prod.splits)+
    with lift_cases_object [OF assms assms, of p] show ?thesis by simp
  qed
  obtain cs p where l: "lift_cases (map fst cm) cm (SPEC_PROMISE (ensureSpec sel)) = (cs, p)"
    by (cases "lift_cases (map fst cm) cm (SPEC_PROMISE (ensureSpec sel))")
  with obj [of "SPEC_PROMISE (ensureSpec sel)"]
  have cs: "cs = map (\<lambda>(k, v). (k, RSpec (ensureSpec v))) cm" by simp
  show ?thesis
    by (cases p) (simp_all add: cases_spec_def Let_def l cs split: prod.splits sum.splits)
qed

text \<open>
  What \<^verbatim>\<open>cases\<close> does for a selector whose key is an own key of the case object, or is
  neither an own key nor a member of \<^verbatim>\<open>Object.prototype\<close> (for a spec that does not defer):
  the matched case spec is evaluated in the same context, and a key without a match
  evaluates to \<^verbatim>\<open>undefined\<close>.
\<close>

theorem cases_dispatch:
  assumes "distinct (map fst cm)"
    and "run (ensureSpec sel) c st = (Inr v, st1)"
    and "to_property_key v = Inr key"
    and "\<not> SPEC_PROMISE (fst (cases_spec sel cm))"
  shows "(\<forall>r. map_of cm key = Some r \<longrightarrow>
            run (fst (cases_spec sel cm)) c st = run (ensureSpec r) c st1) \<and>
         (map_of cm key = None \<longrightarrow> key \<notin> set object_prototype \<longrightarrow>
            run (fst (cases_spec sel cm)) c st = (Inr (Prim Undefined), st1))"
  using assms(2-4)
  by (simp add: cases_spec_run [OF assms(1)] select_case_lifted)

theorem cases_dispatch_witness:
  "run (fst (cases_spec (RLit (Str ''b'')) [(''a'', RLit (Num 1)), (''b'', RLit (Num 2))]))
       empty_ctx empty_store = (Inr (Prim (Num 2)), empty_store) \<and>
   run (fst (cases_spec (RLit (Str ''c'')) [(''a'', RLit (Num 1)), (''b'', RLit (Num 2))]))
       empty_ctx empty_store = (Inr (Prim Undefined), empty_store)"
proof -
  let ?cm = "[(''a'', RLit (Num 1)), (''b'', RLit (Num 2))]"
  have d: "distinct (map fst ?cm)" by simp
  have f: "\<not> SPEC_PROMISE (fst (cases_spec (RLit (Str k)) ?cm))" for k
    by (simp add: cases_spec_flag [OF d] SPEC_PROMISE_constant_spec)
  have r: "run (ensureSpec (RLit (Str k))) empty_ctx empty_store = (Inr (Prim (Str k)), empty_store)" for k
    by (simp add: run_constant_spec)
  from cases_dispatch [OF d r _ f, of "''b''" "''b''"] cases_dispatch [OF d r _ f, of "''c''" "''c''"]
  show ?thesis
    by (simp add: run_constant_spec object_prototype_def)
qed

text \<open>
  Claim C6 says that every key without an entry in the case object evaluates to the absent
  marker and never to a failure. The source reads \<^verbatim>\<open>caseSpecs[caseValue]\<close>, which also finds
  what a plain object inherits: for the case object \<^verbatim>\<open>{a: 1, b: 2}\<close> the selector
  \<^verbatim>\<open>'__proto__'\<close> finds the prototype object, which is truthy and not a function, so the
  evaluation raises; the selector \<^verbatim>\<open>'toString'\<close> finds a function and evaluates to a string.
  The selectors \<^verbatim>\<open>'c'\<close> and \<^verbatim>\<open>'b'\<close> behave as the claim says.
\<close>

theorem cases_inherited_key:
  "fst (run (fst (cases_spec (RSpec (constant_spec (Prim (Str ''__proto__''))))
                 [(''a'', RLit (Num 1)), (''b'', RLit (Num 2))])) empty_ctx empty_store)
     = Inl (TypeError ''caseSpec is not a function'') \<and>
   fst (run (fst (cases_spec (RSpec (constant_spec (Prim (Str ''toString''))))
                 [(''a'', RLit (Num 1)), (''b'', RLit (Num 2))])) empty_ctx empty_store)
     = Inr (Prim (Str ''[object Undefined]'')) \<and>
   fst (run (fst (cases_spec (RSpec (constant_spec (Prim (Str ''c''))))
                 [(''a'', RLit (Num 1)), (''b'', RLit (Num 2))])) empty_ctx empty_store)
     = Inr (Prim Undefined) \<and>
   fst (run (fst (cases_spec (RSpec (constant_spec (Prim (Str ''b''))))
                 [(''a'', RLit (Num 1)), (''b'', RLit (Num 2))])) empty_ctx empty_store)
     = Inr (Prim (Num 2))"
  by (simp add: cases_spec_def Let_def own_prop_def select_case_def call_inherited_def
      object_prototype_def run_constant_spec SPEC_PROMISE_constant_spec)

section \<open>map\<close>









section \<open>cache\<close>













end
